theory Spec2Isabelle
  imports Main "HOL-Library.Multiset"
begin

section \<open>The panchayat election registry (\<open>createElection\<close>)\<close>

text \<open>
  The election module keeps two private containers in a closure, the \<open>Map\<close>
  \<open>registeredVoterList\<close> and the plain object \<open>candidatedVoted\<close>, next to the
  candidate array it was built from. The four methods are modelled by explicit state
  passing: each takes the closure's state and returns its result with the state after
  the call.
\<close>

subsection \<open>Data\<close>

text \<open>Candidates are \<open>{ id, name, party }\<close>; the fields carry a prefix since \<open>id\<close>
  is a constant of HOL.\<close>

record candidate =
  cand_id :: string
  cand_name :: string
  cand_party :: string

text \<open>
  A voter is \<open>{ id, name, age }\<close>. \<open>registerVoter\<close> reads \<open>voter?.id\<close> and
  \<open>voter.age\<close> defensively, so both properties may be absent: \<open>None\<close> is JavaScript's
  \<open>undefined\<close>.
\<close>

record voter =
  voter_id :: "string option"
  voter_name :: string
  voter_age :: "int option"

text \<open>The value stored per voter, \<open>{ voted: true, candidateId, voterId }\<close>.\<close>

record ballot =
  b_voted :: bool
  b_candidateId :: string
  b_voterId :: string

text \<open>The argument of \<open>onSuccess\<close>, \<open>{ voterId, candidateId }\<close>.\<close>

record payload =
  voterId :: string
  candidateId :: string

text \<open>An element of the array \<open>getResults\<close> returns, \<open>{ ...candidate, votes }\<close>.\<close>

record tallied =
  res_id :: string
  res_name :: string
  res_party :: string
  votes :: nat

text \<open>Reading a property of \<open>undefined\<close> throws a \<open>TypeError\<close>.\<close>

datatype error = TypeError

subsection \<open>The plain object \<open>candidatedVoted\<close>\<close>

text \<open>
  \<open>candidatedVoted\<close> is an ordinary object literal \<open>{}\<close> used as a dictionary. Its own
  properties are kept as an association list (with distinct keys, in creation order),
  and its prototype link is kept too: \<open>None\<close> stands for \<open>Object.prototype\<close>.

  The code touches the object in three ways. \<open>Object.hasOwn\<close> and the guarded read
  \<open>candidatedVoted[voterId]\<close> look at own properties. \<open>Object.values\<close> lists the values
  of the own properties (JavaScript lists integer-like keys first; the code only counts
  the values, so the model keeps creation order). The assignment
  \<open>candidatedVoted[voterId] = ...\<close> is an ordinary property write: it replaces or creates
  an own property, except for the key \<open>__proto__\<close>, which no object literal owns and
  which \<open>Object.prototype\<close> provides as an accessor. For that key the write runs the
  inherited setter, which makes the assigned object the new prototype of
  \<open>candidatedVoted\<close> and creates no own property. Every other property that
  \<open>Object.prototype\<close> or a ballot provides is a writable data property, so a write under
  those names creates an own property as usual.
\<close>

record js_object =
  own :: "(string \<times> ballot) list"
  proto :: "ballot option"

fun set_own :: "string \<Rightarrow> ballot \<Rightarrow> (string \<times> ballot) list \<Rightarrow> (string \<times> ballot) list" where
  "set_own k v [] = [(k, v)]"
| "set_own k v (p # ps) = (if fst p = k then (k, v) # ps else p # set_own k v ps)"

definition hasOwn :: "js_object \<Rightarrow> string \<Rightarrow> bool" where
  "hasOwn obj k = (map_of (own obj) k \<noteq> None)"

definition obj_values :: "js_object \<Rightarrow> ballot list" where
  "obj_values obj = map snd (own obj)"

definition obj_assign :: "string \<Rightarrow> ballot \<Rightarrow> js_object \<Rightarrow> js_object" where
  "obj_assign k v obj =
     (if k = ''__proto__'' then obj\<lparr>proto := Some v\<rparr>
      else obj\<lparr>own := set_own k v (own obj)\<rparr>)"

subsection \<open>The closure's state\<close>

record election =
  candidates :: "candidate list"
  registeredVoterList :: "string \<rightharpoonup> voter"
  candidatedVoted :: js_object

definition createElection :: "candidate list \<Rightarrow> election" where
  "createElection cs =
     \<lparr>candidates = cs, registeredVoterList = Map.empty,
      candidatedVoted = \<lparr>own = [], proto = None\<rparr>\<rparr>"

subsection \<open>\<open>registerVoter\<close>\<close>

text \<open>
  The guard is \<open>!voter?.id || registeredVoterList.has(voter.id) || voter.age < 18\<close>.
  \<open>voter?.id\<close> is falsy when the voter is missing, when it has no \<open>id\<close> and when the
  \<open>id\<close> is the empty string. \<open>undefined < 18\<close> is false.
\<close>

definition age_below :: "int option \<Rightarrow> int \<Rightarrow> bool" where
  "age_below a n = (case a of None \<Rightarrow> False | Some x \<Rightarrow> x < n)"

definition registerVoter :: "voter option \<Rightarrow> election \<Rightarrow> bool \<times> election" where
  "registerVoter vo s =
     (case vo of
        None \<Rightarrow> (False, s)
      | Some v \<Rightarrow>
          (case voter_id v of
             None \<Rightarrow> (False, s)
           | Some i \<Rightarrow>
               if i = [] \<or> registeredVoterList s i \<noteq> None \<or> age_below (voter_age v) 18
               then (False, s)
               else (True, s\<lparr>registeredVoterList := (registeredVoterList s)(i \<mapsto> v)\<rparr>)))"

subsection \<open>\<open>castVote\<close>\<close>

text \<open>
  The callbacks are parameters, and the method returns what the callback it calls
  returns. The third check is
  \<open>Object.hasOwn(candidatedVoted, voterId) && candidatedVoted[voterId].voted\<close>.
\<close>

definition already_voted :: "js_object \<Rightarrow> string \<Rightarrow> bool" where
  "already_voted obj k =
     (hasOwn obj k \<and> (case map_of (own obj) k of None \<Rightarrow> False | Some b \<Rightarrow> b_voted b))"

definition castVote ::
  "string \<Rightarrow> string \<Rightarrow> (payload \<Rightarrow> 'r) \<Rightarrow> (string \<Rightarrow> 'r) \<Rightarrow> election \<Rightarrow> 'r \<times> election" where
  "castVote vId cId onSuccess onError s =
     (if find (\<lambda>candid. cand_id candid = cId) (candidates s) = None
      then (onError ''Wrong candidate!'', s)
      else if registeredVoterList s vId = None
      then (onError ''Unauthorized voter!'', s)
      else if already_voted (candidatedVoted s) vId
      then (onError ''Already voted!'', s)
      else (onSuccess \<lparr>voterId = vId, candidateId = cId\<rparr>,
            s\<lparr>candidatedVoted :=
                obj_assign vId \<lparr>b_voted = True, b_candidateId = cId, b_voterId = vId\<rparr>
                  (candidatedVoted s)\<rparr>))"

text \<open>
  Passing the two constructors below as the callbacks makes the call that \<open>castVote\<close>
  performs visible as its result.
\<close>

datatype callback_call = OnSuccess payload | OnError string

subsection \<open>\<open>getResults\<close> and \<open>getWinner\<close>\<close>

text \<open>
  \<open>Array.prototype.sort\<close> is stable, and orders \<open>a\<close> before \<open>b\<close> when the comparator
  is negative on \<open>(a, b)\<close>. It is modelled by a stable insertion sort; for a comparator
  that is a consistent ordering, as the default one is, every conforming engine returns
  this list.
\<close>

fun insert_sorted :: "('a \<Rightarrow> 'a \<Rightarrow> int) \<Rightarrow> 'a \<Rightarrow> 'a list \<Rightarrow> 'a list" where
  "insert_sorted cmp x [] = [x]"
| "insert_sorted cmp x (y # ys) =
     (if cmp x y \<le> 0 then x # y # ys else y # insert_sorted cmp x ys)"

definition array_sort :: "('a \<Rightarrow> 'a \<Rightarrow> int) \<Rightarrow> 'a list \<Rightarrow> 'a list" where
  "array_sort cmp xs = foldr (insert_sorted cmp) xs []"

definition count_votes :: "js_object \<Rightarrow> candidate \<Rightarrow> tallied" where
  "count_votes obj candidate =
     \<lparr>res_id = cand_id candidate, res_name = cand_name candidate,
      res_party = cand_party candidate,
      votes = length (filter (\<lambda>voter. b_candidateId voter = cand_id candidate)
                        (obj_values obj))\<rparr>"

definition getResults ::
  "(tallied \<Rightarrow> tallied \<Rightarrow> int) option \<Rightarrow> election \<Rightarrow> tallied list \<times> election" where
  "getResults sortFn s =
     (let candidateWithVotesCount = map (count_votes (candidatedVoted s)) (candidates s)
      in (array_sort
            (\<lambda>candid1 candid2.
               case sortFn of
                 Some f \<Rightarrow> f candid1 candid2
               | None \<Rightarrow> int (votes candid2) - int (votes candid1))
            candidateWithVotesCount, s))"

definition getWinner :: "election \<Rightarrow> (error + tallied option) \<times> election" where
  "getWinner s =
     (case getResults None s of
        (results, s') \<Rightarrow>
          (case results of
             [] \<Rightarrow> (Inl TypeError, s')
           | candidateWithHighestVotes # _ \<Rightarrow>
               (Inr (if 0 < votes candidateWithHighestVotes
                     then Some candidateWithHighestVotes else None), s')))"

subsection \<open>Sequences of calls\<close>

text \<open>
  A registry state is reachable when a sequence of method calls leads to it from
  \<open>createElection\<close>. The callbacks of \<open>castVote\<close> do not influence the state, so a call
  is recorded without them.
\<close>

datatype action =
    RegisterVoter "voter option"
  | CastVote string string
  | GetResults "(tallied \<Rightarrow> tallied \<Rightarrow> int) option"
  | GetWinner

fun step :: "action \<Rightarrow> election \<Rightarrow> election" where
  "step (RegisterVoter vo) s = snd (registerVoter vo s)"
| "step (CastVote vId cId) s = snd (castVote vId cId OnSuccess OnError s)"
| "step (GetResults sortFn) s = snd (getResults sortFn s)"
| "step GetWinner s = snd (getWinner s)"

fun run :: "action list \<Rightarrow> election \<Rightarrow> election" where
  "run [] s = s"
| "run (a # as) s = run as (step a s)"

subsection \<open>The example of the module's documentation\<close>

text \<open>
  The candidates and the voter of the \<open>@example\<close> in the source, used for the concrete
  runs below.
\<close>

definition ram :: candidate where
  "ram = \<lparr>cand_id = ''C1'', cand_name = ''Sarpanch Ram'', cand_party = ''Janata''\<rparr>"

definition sita :: candidate where
  "sita = \<lparr>cand_id = ''C2'', cand_name = ''Pradhan Sita'', cand_party = ''Lok''\<rparr>"

definition mohan :: voter where
  "mohan = \<lparr>voter_id = Some ''V1'', voter_name = ''Mohan'', voter_age = Some 25\<rparr>"

subsection \<open>Notions of the specification\<close>

text \<open>
  The registry invariant: the own properties of \<open>candidatedVoted\<close> have distinct keys,
  and each of them belongs to a registered voter, is marked \<open>voted\<close>, carries its key
  as \<open>voterId\<close> and names a candidate of the election.
\<close>

definition registry_inv :: "election \<Rightarrow> bool" where
  "registry_inv s =
     (distinct (map fst (own (candidatedVoted s))) \<and>
      (\<forall>p \<in> set (own (candidatedVoted s)).
          registeredVoterList s (fst p) \<noteq> None \<and> b_voted (snd p) \<and>
          b_voterId (snd p) = fst p \<and>
          b_candidateId (snd p) \<in> cand_id ` set (candidates s)))"

text \<open>
  The specification's vote count of a candidate id: the number of voter ids whose
  recorded ballot names it.
\<close>

definition recorded_for :: "election \<Rightarrow> string \<Rightarrow> nat" where
  "recorded_for s c =
     card {v. \<exists>b. map_of (own (candidatedVoted s)) v = Some b \<and> b_candidateId b = c}"

text \<open>
  The specification's conditions under which \<open>registerVoter\<close> fails, with the empty
  \<open>id\<close> added: the voter is missing, has no \<open>id\<close> or an empty one, is registered
  already, or is younger than 18.
\<close>

definition rejected :: "voter option \<Rightarrow> election \<Rightarrow> bool" where
  "rejected vo s =
     (case vo of
        None \<Rightarrow> True
      | Some v \<Rightarrow>
          (case voter_id v of
             None \<Rightarrow> True
           | Some i \<Rightarrow> i = [] \<or> registeredVoterList s i \<noteq> None \<or>
                       (case voter_age v of None \<Rightarrow> False | Some a \<Rightarrow> a < 18)))"

section \<open>Properties of the building blocks\<close>

subsection \<open>Candidate lookup and the object's own properties\<close>

lemma find_None_iff_ids:
  "(find (\<lambda>candid. cand_id candid = c) cs = None) = (c \<notin> cand_id ` set cs)"
  by (auto simp: find_None_iff)

lemma map_of_set_own: "map_of (set_own k v ps) = (map_of ps)(k \<mapsto> v)"
  by (induction ps) (auto simp: fun_eq_iff)

lemma set_own_fresh: "k \<notin> fst ` set ps \<Longrightarrow> set_own k v ps = ps @ [(k, v)]"
  by (induction ps) auto

lemma keys_set_own: "fst ` set (set_own k v ps) = insert k (fst ` set ps)"
  by (induction ps) auto

lemma distinct_set_own: "distinct (map fst ps) \<Longrightarrow> distinct (map fst (set_own k v ps))"
proof (induction ps)
  case Nil
  show ?case by simp
next
  case (Cons p ps)
  have "fst ` set (set_own k v ps) = insert k (fst ` set ps)" by (rule keys_set_own)
  with Cons show ?case by auto
qed

lemma already_voted_iff:
  "already_voted obj k = (\<exists>b. map_of (own obj) k = Some b \<and> b_voted b)"
  by (auto simp: already_voted_def hasOwn_def split: option.splits)

text \<open>With distinct keys, counting the values that satisfy \<open>P\<close> counts the keys whose
  value satisfies \<open>P\<close>.\<close>

lemma count_values:
  assumes "distinct (map fst ps)"
  shows "length (filter P (map snd ps)) = card {k. \<exists>b. map_of ps k = Some b \<and> P b}"
  using assms
proof (induction ps)
  case Nil
  show ?case by simp
next
  case (Cons p ps)
  let ?A = "{k. \<exists>b. map_of ps k = Some b \<and> P b}"
  have fin: "finite ?A"
    by (rule finite_subset [of _ "dom (map_of ps)"]) (auto simp: finite_dom_map_of)
  from Cons.prems have "fst p \<notin> fst ` set ps" by simp
  then have none: "map_of ps (fst p) = None" by (simp add: map_of_eq_None_iff)
  then have out: "fst p \<notin> ?A" by simp
  have eq: "{k. \<exists>b. map_of (p # ps) k = Some b \<and> P b} =
            (if P (snd p) then insert (fst p) ?A else ?A)"
    using none by (cases p) auto
  from Cons have ih: "length (filter P (map snd ps)) = card ?A" by simp
  show ?case
    using ih fin out by (simp add: eq del: map_of.simps)
qed

subsection \<open>The callbacks only shape the result\<close>

lemma castVote_callbacks:
  "castVote v c f g s =
     (case castVote v c OnSuccess OnError s of
        (OnSuccess p, s') \<Rightarrow> (f p, s')
      | (OnError e, s') \<Rightarrow> (g e, s'))"
  by (simp add: castVote_def)

text \<open>A call that passes the three checks calls \<open>onSuccess\<close>; it leaves an own property
  behind for every voter id but \<open>__proto__\<close>.\<close>

lemma castVote_success:
  assumes "c \<in> cand_id ` set (candidates s)" and "registeredVoterList s v \<noteq> None"
    and "\<not> already_voted (candidatedVoted s) v"
  shows "fst (castVote v c f g s) = f \<lparr>voterId = v, candidateId = c\<rparr>"
    and "v \<noteq> ''__proto__'' \<Longrightarrow>
         map_of (own (candidatedVoted (snd (castVote v c f g s)))) v =
           Some \<lparr>b_voted = True, b_candidateId = c, b_voterId = v\<rparr>"
  using assms by (auto simp: castVote_def find_None_iff_ids obj_assign_def map_of_set_own)

subsection \<open>What no call changes\<close>

lemma getResults_state: "snd (getResults f s) = s"
  by (simp add: getResults_def)

lemma getWinner_state: "snd (getWinner s) = s"
  by (simp add: getWinner_def getResults_def split: list.splits)

lemma candidates_step: "candidates (step a s) = candidates s"
  by (cases a)
     (auto simp: registerVoter_def castVote_def getResults_def getWinner_def Let_def
           split: option.splits list.splits)

lemma candidates_run: "candidates (run as s) = candidates s"
  by (induction as arbitrary: s) (simp_all add: candidates_step)

lemma run_append: "run (as @ bs) s = run bs (run as s)"
  by (induction as arbitrary: s) simp_all

subsection \<open>The registry invariant holds in every reachable state\<close>

lemma inv_create: "registry_inv (createElection cs)"
  by (simp add: registry_inv_def createElection_def)

lemma inv_registerVoter: "registry_inv s \<Longrightarrow> registry_inv (snd (registerVoter vo s))"
  by (auto simp: registry_inv_def registerVoter_def split: option.splits)

lemma inv_castVote:
  assumes "registry_inv s"
  shows "registry_inv (snd (castVote v c f g s))"
proof (cases "c \<in> cand_id ` set (candidates s) \<and> registeredVoterList s v \<noteq> None \<and>
              \<not> already_voted (candidatedVoted s) v \<and> v \<noteq> ''__proto__''")
  case False
  with assms show ?thesis
    by (auto simp: castVote_def find_None_iff_ids obj_assign_def registry_inv_def)
next
  case True
  let ?b = "\<lparr>b_voted = True, b_candidateId = c, b_voterId = v\<rparr>"
  let ?ps = "own (candidatedVoted s)"
  from True assms have fresh: "v \<notin> fst ` set ?ps"
    by (force simp: already_voted_iff registry_inv_def)
  from True have st: "snd (castVote v c f g s) =
      s\<lparr>candidatedVoted := (candidatedVoted s)\<lparr>own := ?ps @ [(v, ?b)]\<rparr>\<rparr>"
    by (simp add: castVote_def find_None_iff_ids obj_assign_def set_own_fresh [OF fresh])
  from assms True fresh show ?thesis
    unfolding st by (auto simp: registry_inv_def)
qed

lemma inv_step: "registry_inv s \<Longrightarrow> registry_inv (step a s)"
  by (cases a) (simp_all add: inv_registerVoter inv_castVote getResults_state getWinner_state)

lemma inv_run: "registry_inv s \<Longrightarrow> registry_inv (run as s)"
  by (induction as arbitrary: s) (simp_all add: inv_step)

lemma inv_reachable: "registry_inv (run as (createElection cs))"
  by (simp add: inv_run inv_create)

subsection \<open>A recorded ballot stays\<close>

lemma ballot_kept_step:
  assumes "registry_inv s" and "map_of (own (candidatedVoted s)) v = Some b"
  shows "map_of (own (candidatedVoted (step a s))) v = Some b"
proof (cases a)
  case (RegisterVoter vo)
  with assms show ?thesis by (auto simp: registerVoter_def split: option.splits)
next
  case (CastVote w c)
  from assms have "b_voted b"
    by (auto simp: registry_inv_def dest!: map_of_SomeD)
  with assms have av: "already_voted (candidatedVoted s) v" by (simp add: already_voted_iff)
  show ?thesis
  proof (cases "w = v")
    case True
    with CastVote av assms show ?thesis by (simp add: castVote_def)
  next
    case False
    with CastVote assms show ?thesis
      by (simp add: castVote_def obj_assign_def map_of_set_own)
  qed
next
  case (GetResults f)
  with assms show ?thesis by (simp add: getResults_state)
next
  case GetWinner
  with assms show ?thesis by (simp add: getWinner_state)
qed

lemma ballot_kept_run:
  "registry_inv s \<Longrightarrow> map_of (own (candidatedVoted s)) v = Some b \<Longrightarrow>
   map_of (own (candidatedVoted (run as s))) v = Some b"
  by (induction as arbitrary: s) (simp_all add: ballot_kept_step inv_step)

lemma castVote_recorded:
  assumes "registry_inv s" and "map_of (own (candidatedVoted s)) v = Some b"
  shows "castVote v c f g s =
           (if c \<in> cand_id ` set (candidates s) then g ''Already voted!''
            else g ''Wrong candidate!'', s)"
proof -
  from assms have "(v, b) \<in> set (own (candidatedVoted s))" by (simp add: map_of_SomeD)
  with assms have "b_voted b" and "registeredVoterList s v \<noteq> None"
    by (auto simp: registry_inv_def)
  with assms show ?thesis
    by (auto simp: castVote_def find_None_iff_ids already_voted_iff)
qed

subsection \<open>The default order of \<open>getResults\<close>\<close>

text \<open>With the default comparator the insertion sort is the library's stable sort on
  the negated vote count.\<close>

lemma array_sort_default:
  "array_sort (\<lambda>a b. int (votes b) - int (votes a)) (xs :: tallied list) =
     sort_key (\<lambda>r. - int (votes r)) xs"
proof -
  have "insert_sorted (\<lambda>a b. int (votes b) - int (votes a)) x ys =
        insort_key (\<lambda>r. - int (votes r)) x ys"
    for x :: tallied and ys
    by (induction ys) auto
  then have "insert_sorted (\<lambda>a b. int (votes b) - int (votes a)) =
             insort_key (\<lambda>r :: tallied. - int (votes r))"
    by (simp add: fun_eq_iff)
  then show ?thesis
    by (simp add: array_sort_def sort_key_def)
qed

lemma getResults_default:
  "fst (getResults None s) =
     sort_key (\<lambda>r. - int (votes r)) (map (count_votes (candidatedVoted s)) (candidates s))"
  by (simp add: getResults_def array_sort_default)

text \<open>The first record of the default order has the most votes, and is the first of
  the candidate list among those with as many.\<close>

lemma find_filter_Cons: "filter P xs = y # ys \<Longrightarrow> find P xs = Some y"
  by (induction xs) (auto split: if_splits)

lemma first_result_most_votes:
  assumes "fst (getResults None s) = r # rest"
  shows "(\<forall>x \<in> set (map (count_votes (candidatedVoted s)) (candidates s)).
            votes x \<le> votes r) \<and>
         find (\<lambda>x. votes x = votes r)
           (map (count_votes (candidatedVoted s)) (candidates s)) = Some r"
proof -
  let ?f = "\<lambda>r :: tallied. - int (votes r)"
  let ?ts = "map (count_votes (candidatedVoted s)) (candidates s)"
  from assms have rs: "sort_key ?f ?ts = r # rest" by (simp add: getResults_default)
  have "sorted (map ?f (sort_key ?f ?ts))" by (rule sorted_sort_key)
  then have "\<forall>x \<in> set rest. votes x \<le> votes r" unfolding rs by simp
  moreover have "set ?ts = set (r # rest)" using rs by (metis set_sort)
  ultimately have top: "\<forall>x \<in> set ?ts. votes x \<le> votes r" by simp
  have "filter (\<lambda>x. ?f x = ?f r) (sort_key ?f ?ts) = filter (\<lambda>x. ?f x = ?f r) ?ts"
    by (rule sort_key_stable)
  then have "filter (\<lambda>x. votes x = votes r) ?ts = r # filter (\<lambda>x. votes x = votes r) rest"
    unfolding rs by simp
  then have "find (\<lambda>x. votes x = votes r) ?ts = Some r" by (rule find_filter_Cons)
  with top show ?thesis by simp
qed

text \<open>Small runs, evaluated once for the concrete theorems below.\<close>

lemma run_register_mohan:
  "run [RegisterVoter (Some mohan)] (createElection [ram, sita]) =
     \<lparr>candidates = [ram, sita], registeredVoterList = [''V1'' \<mapsto> mohan],
      candidatedVoted = \<lparr>own = [], proto = None\<rparr>\<rparr>"
  by (simp add: createElection_def registerVoter_def age_below_def mohan_def)

lemma run_mohan_votes:
  "c \<in> {''C1'', ''C2''} \<Longrightarrow>
   run [RegisterVoter (Some mohan), CastVote ''V1'' c] (createElection [ram, sita]) =
     \<lparr>candidates = [ram, sita], registeredVoterList = [''V1'' \<mapsto> mohan],
      candidatedVoted =
        \<lparr>own = [(''V1'', \<lparr>b_voted = True, b_candidateId = c, b_voterId = ''V1''\<rparr>)],
         proto = None\<rparr>\<rparr>"
  by (auto simp: createElection_def registerVoter_def castVote_def already_voted_def hasOwn_def
      obj_assign_def age_below_def ram_def sita_def mohan_def)

section \<open>The claims of the specification\<close>

subsection \<open>\<open>castVote\<close>\<close>

text \<open>
  Claim C1: a call of \<open>castVote\<close> for a registered voter, a candidate of the election
  and a voter without a recorded ballot records the ballot and returns the result of
  \<open>onSuccess({ voterId, candidateId })\<close>. The code misses this for the voter id
  \<open>__proto__\<close>. After the voter \<open>{ id: "__proto__", name: "Mohan", age: 25 }\<close> has
  been registered, \<open>castVote("__proto__", "C1", ...)\<close> calls \<open>onSuccess\<close>, yet
  \<open>candidatedVoted\<close> has no own property afterwards: the vote is not counted, and the
  same voter votes again with success.
\<close>

theorem castVote_proto_ballot_lost:
  "''C1'' \<in> cand_id ` set [ram, sita] \<and>
   registeredVoterList
     (run [RegisterVoter (Some (mohan\<lparr>voter_id := Some ''__proto__''\<rparr>))]
        (createElection [ram, sita])) ''__proto__'' \<noteq> None \<and>
   \<not> hasOwn (candidatedVoted
     (run [RegisterVoter (Some (mohan\<lparr>voter_id := Some ''__proto__''\<rparr>))]
        (createElection [ram, sita]))) ''__proto__'' \<and>
   castVote ''__proto__'' ''C1'' OnSuccess OnError
     (run [RegisterVoter (Some (mohan\<lparr>voter_id := Some ''__proto__''\<rparr>))]
        (createElection [ram, sita])) =
     (OnSuccess \<lparr>voterId = ''__proto__'', candidateId = ''C1''\<rparr>,
      run [RegisterVoter (Some (mohan\<lparr>voter_id := Some ''__proto__''\<rparr>)),
           CastVote ''__proto__'' ''C1'']
        (createElection [ram, sita])) \<and>
   own (candidatedVoted
     (run [RegisterVoter (Some (mohan\<lparr>voter_id := Some ''__proto__''\<rparr>)),
           CastVote ''__proto__'' ''C1'']
        (createElection [ram, sita]))) = [] \<and>
   fst (castVote ''__proto__'' ''C2'' OnSuccess OnError
     (run [RegisterVoter (Some (mohan\<lparr>voter_id := Some ''__proto__''\<rparr>)),
           CastVote ''__proto__'' ''C1'']
        (createElection [ram, sita]))) =
     OnSuccess \<lparr>voterId = ''__proto__'', candidateId = ''C2''\<rparr> \<and>
   fst (getWinner
     (run [RegisterVoter (Some (mohan\<lparr>voter_id := Some ''__proto__''\<rparr>)),
           CastVote ''__proto__'' ''C1'']
        (createElection [ram, sita]))) = Inr None"
  by (simp add: createElection_def registerVoter_def castVote_def getWinner_def getResults_def
      already_voted_def hasOwn_def obj_assign_def age_below_def ram_def sita_def mohan_def
      array_sort_def count_votes_def obj_values_def)

text \<open>
  Claim C2: in every reachable state \<open>castVote\<close> checks, in this order, that the
  candidate id belongs to the election (else \<open>Wrong candidate!\<close>), that the voter is
  registered (else \<open>Unauthorized voter!\<close>) and that the voter has no recorded ballot
  (else \<open>Already voted!\<close>). The first check that fails decides the one call of
  \<open>onError\<close>, whose result is returned with the state unchanged; the three reasons
  differ from each other. When no check fails the result is that of \<open>onSuccess\<close>.
\<close>

theorem castVote_check_order:
  "castVote v c f g (run as (createElection cs)) =
     (if c \<notin> cand_id ` set cs
      then (g ''Wrong candidate!'', run as (createElection cs))
      else if registeredVoterList (run as (createElection cs)) v = None
      then (g ''Unauthorized voter!'', run as (createElection cs))
      else if map_of (own (candidatedVoted (run as (createElection cs)))) v \<noteq> None
      then (g ''Already voted!'', run as (createElection cs))
      else (f \<lparr>voterId = v, candidateId = c\<rparr>,
            (run as (createElection cs))
              \<lparr>candidatedVoted :=
                 obj_assign v \<lparr>b_voted = True, b_candidateId = c, b_voterId = v\<rparr>
                   (candidatedVoted (run as (createElection cs)))\<rparr>)) \<and>
   distinct [''Wrong candidate!'', ''Unauthorized voter!'', ''Already voted!'']"
proof -
  define s where "s = run as (createElection cs)"
  have i: "registry_inv s" by (simp add: s_def inv_reachable)
  have cs: "candidates s = cs" by (simp add: s_def candidates_run createElection_def)
  have "b_voted b" if "map_of (own (candidatedVoted s)) v = Some b" for b
    using i map_of_SomeD [OF that] by (auto simp: registry_inv_def)
  then have "already_voted (candidatedVoted s) v = (map_of (own (candidatedVoted s)) v \<noteq> None)"
    by (auto simp: already_voted_iff)
  then show ?thesis
    unfolding s_def [symmetric]
    by (simp add: castVote_def find_None_iff_ids cs)
qed

text \<open>The three failures and the success on a run of the documentation's example: a
  wrong candidate for an unregistered voter, an unregistered voter, a second vote, and
  the first vote.\<close>

theorem castVote_check_order_witness:
  "fst (castVote ''V9'' ''C9'' OnSuccess OnError
         (run [RegisterVoter (Some mohan), CastVote ''V1'' ''C1''] (createElection [ram, sita]))) =
     OnError ''Wrong candidate!'' \<and>
   fst (castVote ''V9'' ''C1'' OnSuccess OnError
         (run [RegisterVoter (Some mohan), CastVote ''V1'' ''C1''] (createElection [ram, sita]))) =
     OnError ''Unauthorized voter!'' \<and>
   fst (castVote ''V1'' ''C2'' OnSuccess OnError
         (run [RegisterVoter (Some mohan), CastVote ''V1'' ''C1''] (createElection [ram, sita]))) =
     OnError ''Already voted!'' \<and>
   fst (castVote ''V1'' ''C1'' OnSuccess OnError
         (run [RegisterVoter (Some mohan)] (createElection [ram, sita]))) =
     OnSuccess \<lparr>voterId = ''V1'', candidateId = ''C1''\<rparr>"
proof -
  have r: "run [RegisterVoter (Some mohan), CastVote ''V1'' ''C1''] (createElection [ram, sita]) =
     \<lparr>candidates = [ram, sita], registeredVoterList = [''V1'' \<mapsto> mohan],
      candidatedVoted =
        \<lparr>own = [(''V1'', \<lparr>b_voted = True, b_candidateId = ''C1'', b_voterId = ''V1''\<rparr>)],
         proto = None\<rparr>\<rparr>"
    by (rule run_mohan_votes) simp
  from castVote_check_order [of "''V9''" "''C9''" OnSuccess OnError
        "[RegisterVoter (Some mohan), CastVote ''V1'' ''C1'']" "[ram, sita]"]
  have 1: "fst (castVote ''V9'' ''C9'' OnSuccess OnError
         (run [RegisterVoter (Some mohan), CastVote ''V1'' ''C1''] (createElection [ram, sita]))) =
     OnError ''Wrong candidate!''"
    unfolding r by (simp add: ram_def sita_def)
  from castVote_check_order [of "''V9''" "''C1''" OnSuccess OnError
        "[RegisterVoter (Some mohan), CastVote ''V1'' ''C1'']" "[ram, sita]"]
  have 2: "fst (castVote ''V9'' ''C1'' OnSuccess OnError
         (run [RegisterVoter (Some mohan), CastVote ''V1'' ''C1''] (createElection [ram, sita]))) =
     OnError ''Unauthorized voter!''"
    unfolding r by (simp add: ram_def sita_def)
  from castVote_check_order [of "''V1''" "''C2''" OnSuccess OnError
        "[RegisterVoter (Some mohan), CastVote ''V1'' ''C1'']" "[ram, sita]"]
  have 3: "fst (castVote ''V1'' ''C2'' OnSuccess OnError
         (run [RegisterVoter (Some mohan), CastVote ''V1'' ''C1''] (createElection [ram, sita]))) =
     OnError ''Already voted!''"
    unfolding r by (simp add: ram_def sita_def)
  from castVote_check_order [of "''V1''" "''C1''" OnSuccess OnError
        "[RegisterVoter (Some mohan)]" "[ram, sita]"]
  have 4: "fst (castVote ''V1'' ''C1'' OnSuccess OnError
         (run [RegisterVoter (Some mohan)] (createElection [ram, sita]))) =
     OnSuccess \<lparr>voterId = ''V1'', candidateId = ''C1''\<rparr>"
    unfolding run_register_mohan by (simp add: ram_def sita_def)
  from 1 2 3 4 show ?thesis by simp
qed

text \<open>
  Claim C3, amended: for a voter id that is not registered, \<open>castVote\<close> calls
  \<open>onError("Unauthorized voter!")\<close> when the candidate id belongs to the election, and
  \<open>onError("Wrong candidate!")\<close> when it does not; the state is unchanged.
\<close>

theorem castVote_unregistered:
  assumes "registeredVoterList s v = None"
  shows "castVote v c f g s =
           (if c \<in> cand_id ` set (candidates s) then g ''Unauthorized voter!''
            else g ''Wrong candidate!'', s)"
  using assms by (simp add: castVote_def find_None_iff_ids)

text \<open>The unregistered voter \<open>V9\<close> voting for the candidate \<open>C1\<close>.\<close>

theorem castVote_unregistered_witness:
  "registeredVoterList (createElection [ram, sita]) ''V9'' = None \<and>
   castVote ''V9'' ''C1'' OnSuccess OnError (createElection [ram, sita]) =
     (OnError ''Unauthorized voter!'', createElection [ram, sita])"
  using castVote_unregistered [of "createElection [ram, sita]" "''V9''" "''C1''" OnSuccess OnError]
  by (simp add: createElection_def ram_def sita_def)

text \<open>As the specification words it, the claim fails: the unregistered voter \<open>V9\<close>
  voting for the unknown candidate \<open>C9\<close> is told \<open>Wrong candidate!\<close>.\<close>

theorem castVote_unregistered_counterexample:
  "registeredVoterList (createElection [ram, sita]) ''V9'' = None \<and>
   fst (castVote ''V9'' ''C9'' OnSuccess OnError (createElection [ram, sita])) =
     OnError ''Wrong candidate!'' \<and>
   OnError ''Wrong candidate!'' \<noteq> OnError ''Unauthorized voter!''"
  by (simp add: createElection_def castVote_def ram_def sita_def)

subsection \<open>\<open>registerVoter\<close>\<close>

text \<open>
  Claim C4, amended: \<open>registerVoter(voter)\<close> returns \<open>false\<close> and changes nothing when
  the voter is missing, has no \<open>id\<close> or an empty \<open>id\<close>, when the \<open>id\<close> is registered
  already, or when the age is below 18; otherwise it adds the voter to
  \<open>registeredVoterList\<close> under its \<open>id\<close>, leaves the rest of the state as it is, and
  returns \<open>true\<close>.
\<close>

theorem registerVoter_cases:
  "(rejected vo s \<longrightarrow> registerVoter vo s = (False, s)) \<and>
   (\<not> rejected vo s \<longrightarrow>
      (\<exists>v i. vo = Some v \<and> voter_id v = Some i \<and>
             registerVoter vo s =
               (True, s\<lparr>registeredVoterList := (registeredVoterList s)(i \<mapsto> v)\<rparr>)))"
  by (auto simp: rejected_def registerVoter_def age_below_def split: option.splits)

text \<open>A voter of 17 is turned away, the voter of the example is registered.\<close>

theorem registerVoter_cases_witness:
  "rejected (Some (mohan\<lparr>voter_age := Some 17\<rparr>)) (createElection [ram, sita]) \<and>
   registerVoter (Some (mohan\<lparr>voter_age := Some 17\<rparr>)) (createElection [ram, sita]) =
     (False, createElection [ram, sita]) \<and>
   \<not> rejected (Some mohan) (createElection [ram, sita]) \<and>
   registerVoter (Some mohan) (createElection [ram, sita]) =
     (True, (createElection [ram, sita])\<lparr>registeredVoterList := [''V1'' \<mapsto> mohan]\<rparr>)"
  using registerVoter_cases [of "Some (mohan\<lparr>voter_age := Some 17\<rparr>)" "createElection [ram, sita]"]
    registerVoter_cases [of "Some mohan" "createElection [ram, sita]"]
  by (simp add: rejected_def mohan_def createElection_def)

text \<open>As the specification words it, the claim fails: a voter whose \<open>id\<close> is the empty
  string has an \<open>id\<close>, is not registered and is 25, and is turned away.\<close>

theorem registerVoter_empty_id_counterexample:
  "voter_id (mohan\<lparr>voter_id := Some ''''\<rparr>) = Some '''' \<and>
   registeredVoterList (createElection [ram, sita]) '''' = None \<and>
   voter_age (mohan\<lparr>voter_id := Some ''''\<rparr>) = Some 25 \<and>
   registerVoter (Some (mohan\<lparr>voter_id := Some ''''\<rparr>)) (createElection [ram, sita]) =
     (False, createElection [ram, sita])"
  by (simp add: registerVoter_def mohan_def createElection_def)

subsection \<open>Invariants of the reachable states\<close>

text \<open>
  Claim C5, amended: once a ballot is recorded for a voter id, no later call overwrites
  or removes it. In every state reached afterwards the recorded ballot is the same, and
  \<open>castVote\<close> with that voter id leaves the state unchanged and calls \<open>onError\<close>:
  with \<open>Already voted!\<close> when the candidate id belongs to the election, with
  \<open>Wrong candidate!\<close> when it does not.
\<close>

theorem recorded_ballot_final:
  assumes "map_of (own (candidatedVoted (run as (createElection cs)))) v = Some b"
  shows "map_of (own (candidatedVoted (run as' (run as (createElection cs))))) v = Some b \<and>
         castVote v c f g (run as' (run as (createElection cs))) =
           (if c \<in> cand_id ` set cs then g ''Already voted!'' else g ''Wrong candidate!'',
            run as' (run as (createElection cs)))"
proof -
  define s where "s = run as (createElection cs)"
  define s' where "s' = run as' s"
  have i: "registry_inv s" by (simp add: s_def inv_reachable)
  then have i': "registry_inv s'" by (simp add: s'_def inv_run)
  have cs: "candidates s' = cs"
    by (simp add: s'_def s_def candidates_run createElection_def)
  from assms have "map_of (own (candidatedVoted s)) v = Some b" by (simp add: s_def)
  with i have kept: "map_of (own (candidatedVoted s')) v = Some b"
    unfolding s'_def by (rule ballot_kept_run)
  from castVote_recorded [OF i' kept, of c f g] kept show ?thesis
    unfolding cs by (simp add: s'_def s_def)
qed

text \<open>Mohan votes for \<open>C1\<close>; a later attempt for \<open>C2\<close> and a call of \<open>getWinner\<close>
  leave the ballot as it is, and one more attempt is refused.\<close>

theorem recorded_ballot_final_witness:
  "map_of (own (candidatedVoted
      (run [RegisterVoter (Some mohan), CastVote ''V1'' ''C1''] (createElection [ram, sita]))))
      ''V1'' =
     Some \<lparr>b_voted = True, b_candidateId = ''C1'', b_voterId = ''V1''\<rparr> \<and>
   map_of (own (candidatedVoted (run [CastVote ''V1'' ''C2'', GetWinner]
      (run [RegisterVoter (Some mohan), CastVote ''V1'' ''C1''] (createElection [ram, sita])))))
      ''V1'' =
     Some \<lparr>b_voted = True, b_candidateId = ''C1'', b_voterId = ''V1''\<rparr> \<and>
   fst (castVote ''V1'' ''C2'' OnSuccess OnError (run [CastVote ''V1'' ''C2'', GetWinner]
      (run [RegisterVoter (Some mohan), CastVote ''V1'' ''C1''] (createElection [ram, sita])))) =
     OnError ''Already voted!''"
proof -
  have r: "run [RegisterVoter (Some mohan), CastVote ''V1'' ''C1''] (createElection [ram, sita]) =
     \<lparr>candidates = [ram, sita], registeredVoterList = [''V1'' \<mapsto> mohan],
      candidatedVoted =
        \<lparr>own = [(''V1'', \<lparr>b_voted = True, b_candidateId = ''C1'', b_voterId = ''V1''\<rparr>)],
         proto = None\<rparr>\<rparr>"
    by (rule run_mohan_votes) simp
  have h: "map_of (own (candidatedVoted
      (run [RegisterVoter (Some mohan), CastVote ''V1'' ''C1''] (createElection [ram, sita]))))
      ''V1'' =
     Some \<lparr>b_voted = True, b_candidateId = ''C1'', b_voterId = ''V1''\<rparr>"
    unfolding r by simp
  have c: "''C2'' \<in> cand_id ` set [ram, sita]" by (simp add: ram_def sita_def)
  from recorded_ballot_final [OF h, of "[CastVote ''V1'' ''C2'', GetWinner]" "''C2''"
        OnSuccess OnError] h c
  show ?thesis by simp
qed

text \<open>As the specification words it, the claim fails: after Mohan's vote for \<open>C1\<close> has
  succeeded, his attempt to vote for the unknown candidate \<open>C9\<close> is answered with
  \<open>Wrong candidate!\<close>.\<close>

theorem second_vote_wrong_candidate_counterexample:
  "fst (castVote ''V1'' ''C1'' OnSuccess OnError
         (run [RegisterVoter (Some mohan)] (createElection [ram, sita]))) =
     OnSuccess \<lparr>voterId = ''V1'', candidateId = ''C1''\<rparr> \<and>
   fst (castVote ''V1'' ''C9'' OnSuccess OnError
         (run [RegisterVoter (Some mohan), CastVote ''V1'' ''C1''] (createElection [ram, sita]))) =
     OnError ''Wrong candidate!'' \<and>
   OnError ''Wrong candidate!'' \<noteq> OnError ''Already voted!''"
  by (simp add: createElection_def registerVoter_def castVote_def already_voted_def hasOwn_def
      obj_assign_def age_below_def ram_def sita_def mohan_def)

text \<open>
  Claim C6: in every state reachable from \<open>createElection\<close> by calls of the methods,
  every voter id with a recorded ballot is registered, and the candidate id of every
  recorded ballot is the id of a candidate given at construction.
\<close>

theorem ballots_registered_and_valid:
  "\<forall>p \<in> set (own (candidatedVoted (run as (createElection cs)))).
      registeredVoterList (run as (createElection cs)) (fst p) \<noteq> None \<and>
      b_candidateId (snd p) \<in> cand_id ` set cs"
proof -
  define s where "s = run as (createElection cs)"
  have i: "registry_inv s" by (simp add: s_def inv_reachable)
  have cs: "candidates s = cs" by (simp add: s_def candidates_run createElection_def)
  from i show ?thesis
    unfolding s_def [symmetric] by (simp add: registry_inv_def cs)
qed

text \<open>After Mohan's vote for \<open>C2\<close> there is one ballot, his.\<close>

theorem ballots_registered_and_valid_witness:
  "own (candidatedVoted
      (run [RegisterVoter (Some mohan), CastVote ''V1'' ''C2''] (createElection [ram, sita]))) =
     [(''V1'', \<lparr>b_voted = True, b_candidateId = ''C2'', b_voterId = ''V1''\<rparr>)] \<and>
   registeredVoterList
      (run [RegisterVoter (Some mohan), CastVote ''V1'' ''C2''] (createElection [ram, sita]))
      ''V1'' \<noteq> None \<and>
   ''C2'' \<in> cand_id ` set [ram, sita]"
proof -
  have r: "run [RegisterVoter (Some mohan), CastVote ''V1'' ''C2''] (createElection [ram, sita]) =
     \<lparr>candidates = [ram, sita], registeredVoterList = [''V1'' \<mapsto> mohan],
      candidatedVoted =
        \<lparr>own = [(''V1'', \<lparr>b_voted = True, b_candidateId = ''C2'', b_voterId = ''V1''\<rparr>)],
         proto = None\<rparr>\<rparr>"
    by (rule run_mohan_votes) simp
  have o: "own (candidatedVoted
      (run [RegisterVoter (Some mohan), CastVote ''V1'' ''C2''] (createElection [ram, sita]))) =
     [(''V1'', \<lparr>b_voted = True, b_candidateId = ''C2'', b_voterId = ''V1''\<rparr>)]"
    unfolding r by simp
  from ballots_registered_and_valid
         [of "[RegisterVoter (Some mohan), CastVote ''V1'' ''C2'']" "[ram, sita]"]
  show ?thesis unfolding o by simp
qed

subsection \<open>\<open>getResults\<close> and \<open>getWinner\<close>\<close>

text \<open>
  Claim C7: in every reachable state \<open>getResults()\<close> without a comparator returns one
  record \<open>{ id, name, party, votes }\<close> per candidate given at construction, where
  \<open>votes\<close> is the number of recorded ballots that name the candidate's id; the records
  are ordered by \<open>votes\<close> descending, and records with equal \<open>votes\<close> keep the order
  of the candidate list.
\<close>

theorem getResults_default_order:
  "let s = run as (createElection cs);
       rs = fst (getResults None s);
       ts = map (\<lambda>c. \<lparr>res_id = cand_id c, res_name = cand_name c, res_party = cand_party c,
                       votes = recorded_for s (cand_id c)\<rparr>) cs
   in mset rs = mset ts \<and>
      sorted_wrt (\<lambda>a b. votes b \<le> votes a) rs \<and>
      (\<forall>n. filter (\<lambda>r. votes r = n) rs = filter (\<lambda>r. votes r = n) ts)"
proof -
  define s where "s = run as (createElection cs)"
  define ts where
    "ts = map (\<lambda>c. \<lparr>res_id = cand_id c, res_name = cand_name c, res_party = cand_party c,
                     votes = recorded_for s (cand_id c)\<rparr>) cs"
  have "registry_inv s" by (simp add: s_def inv_reachable)
  then have d: "distinct (map fst (own (candidatedVoted s)))" by (simp add: registry_inv_def)
  have "length (filter (\<lambda>voter. b_candidateId voter = cand_id c)
                  (map snd (own (candidatedVoted s)))) = recorded_for s (cand_id c)" for c
    unfolding recorded_for_def by (rule count_values [OF d])
  then have cnt: "count_votes (candidatedVoted s) c =
      \<lparr>res_id = cand_id c, res_name = cand_name c, res_party = cand_party c,
       votes = recorded_for s (cand_id c)\<rparr>" for c
    by (simp add: count_votes_def obj_values_def del: filter_map)
  have cs: "candidates s = cs" by (simp add: s_def candidates_run createElection_def)
  have "map (count_votes (candidatedVoted s)) cs = ts"
    unfolding ts_def by (rule map_cong) (simp_all add: cnt)
  then have rs: "fst (getResults None s) = sort_key (\<lambda>r. - int (votes r)) ts"
    by (simp add: getResults_default cs)
  have m: "mset (sort_key (\<lambda>r. - int (votes r)) ts) = mset ts" by simp
  have "sorted (map (\<lambda>r. - int (votes r)) (sort_key (\<lambda>r. - int (votes r)) ts))"
    by (rule sorted_sort_key)
  then have so: "sorted_wrt (\<lambda>a b. votes b \<le> votes a) (sort_key (\<lambda>r. - int (votes r)) ts)"
    by (simp add: sorted_map)
  have st: "filter (\<lambda>r. votes r = n) (sort_key (\<lambda>r. - int (votes r)) ts) =
            filter (\<lambda>r. votes r = n) ts" for n
    using sort_key_stable [of "\<lambda>r. - int (votes r)" "- int n" ts] by simp
  show ?thesis
    unfolding Let_def s_def [symmetric] ts_def [symmetric] rs
    using m so st by blast
qed

text \<open>After Mohan's vote for \<open>C2\<close> the second candidate comes first, with one vote.\<close>

theorem getResults_default_order_witness:
  "fst (getResults None
     (run [RegisterVoter (Some mohan), CastVote ''V1'' ''C2''] (createElection [ram, sita]))) =
     [\<lparr>res_id = ''C2'', res_name = ''Pradhan Sita'', res_party = ''Lok'', votes = 1\<rparr>,
      \<lparr>res_id = ''C1'', res_name = ''Sarpanch Ram'', res_party = ''Janata'', votes = 0\<rparr>] \<and>
   recorded_for
     (run [RegisterVoter (Some mohan), CastVote ''V1'' ''C2''] (createElection [ram, sita]))
     ''C2'' = 1 \<and>
   recorded_for
     (run [RegisterVoter (Some mohan), CastVote ''V1'' ''C2''] (createElection [ram, sita]))
     ''C1'' = 0"
proof -
  define s where
    "s = run [RegisterVoter (Some mohan), CastVote ''V1'' ''C2''] (createElection [ram, sita])"
  have r: "s =
     \<lparr>candidates = [ram, sita], registeredVoterList = [''V1'' \<mapsto> mohan],
      candidatedVoted =
        \<lparr>own = [(''V1'', \<lparr>b_voted = True, b_candidateId = ''C2'', b_voterId = ''V1''\<rparr>)],
         proto = None\<rparr>\<rparr>"
    unfolding s_def by (rule run_mohan_votes) simp
  have rs: "fst (getResults None s) =
     [\<lparr>res_id = ''C2'', res_name = ''Pradhan Sita'', res_party = ''Lok'', votes = 1\<rparr>,
      \<lparr>res_id = ''C1'', res_name = ''Sarpanch Ram'', res_party = ''Janata'', votes = 0\<rparr>]"
    unfolding r
    by (simp add: getResults_def array_sort_def count_votes_def obj_values_def ram_def sita_def)
  from getResults_default_order
         [of "[RegisterVoter (Some mohan), CastVote ''V1'' ''C2'']" "[ram, sita]"]
  have "mset (fst (getResults None s)) =
        mset [\<lparr>res_id = ''C1'', res_name = ''Sarpanch Ram'', res_party = ''Janata'',
                votes = recorded_for s ''C1''\<rparr>,
              \<lparr>res_id = ''C2'', res_name = ''Pradhan Sita'', res_party = ''Lok'',
                votes = recorded_for s ''C2''\<rparr>]"
    unfolding s_def [symmetric] by (simp add: Let_def ram_def sita_def)
  then have "recorded_for s ''C2'' = 1 \<and> recorded_for s ''C1'' = 0"
    unfolding rs by (auto simp: add_eq_conv_ex)
  with rs show ?thesis unfolding s_def by simp
qed

text \<open>
  Claim C8: with a non-empty candidate list \<open>getWinner()\<close> returns the first element of
  \<open>getResults()\<close> without a comparator when that element has a positive vote count,
  and \<open>null\<close> when it has none; when no ballot is recorded it returns \<open>null\<close>. That
  first element has the most votes and is, among the candidates with as many, the first
  of the candidate list.
\<close>

theorem getWinner_first_result:
  assumes "candidates s \<noteq> []"
  shows "\<exists>r rest. fst (getResults None s) = r # rest \<and>
           fst (getWinner s) = Inr (if 0 < votes r then Some r else None) \<and>
           (\<forall>x \<in> set (map (count_votes (candidatedVoted s)) (candidates s)).
              votes x \<le> votes r) \<and>
           find (\<lambda>x. votes x = votes r)
             (map (count_votes (candidatedVoted s)) (candidates s)) = Some r \<and>
           (own (candidatedVoted s) = [] \<longrightarrow> fst (getWinner s) = Inr None)"
proof -
  have len: "length (fst (getResults None s)) = length (candidates s)"
    by (simp add: getResults_default)
  with assms obtain r rest where rs: "fst (getResults None s) = r # rest"
    by (cases "fst (getResults None s)") auto
  have w: "fst (getWinner s) = Inr (if 0 < votes r then Some r else None)"
    using rs by (cases "getResults None s") (simp add: getWinner_def)
  have "votes r = 0" if "own (candidatedVoted s) = []"
  proof -
    have "r \<in> set (fst (getResults None s))" by (simp add: rs)
    then have "r \<in> set (map (count_votes (candidatedVoted s)) (candidates s))"
      by (simp add: getResults_default)
    with that show ?thesis by (auto simp: count_votes_def obj_values_def)
  qed
  with rs w first_result_most_votes [OF rs] show ?thesis by simp
qed

text \<open>After Mohan's vote for \<open>C2\<close> the winner is the second candidate; before any
  vote there is none.\<close>

theorem getWinner_first_result_witness:
  "candidates
     (run [RegisterVoter (Some mohan), CastVote ''V1'' ''C2''] (createElection [ram, sita])) \<noteq> [] \<and>
   fst (getWinner
     (run [RegisterVoter (Some mohan), CastVote ''V1'' ''C2''] (createElection [ram, sita]))) =
     Inr (Some \<lparr>res_id = ''C2'', res_name = ''Pradhan Sita'', res_party = ''Lok'', votes = 1\<rparr>) \<and>
   fst (getWinner (createElection [ram, sita])) = Inr None"
  using getWinner_first_result
          [of "run [RegisterVoter (Some mohan), CastVote ''V1'' ''C2''] (createElection [ram, sita])"]
    getWinner_first_result [of "createElection [ram, sita]"]
  by (simp add: createElection_def registerVoter_def castVote_def already_voted_def hasOwn_def
      obj_assign_def age_below_def ram_def sita_def mohan_def getResults_def array_sort_def
      count_votes_def obj_values_def)

text \<open>
  Claim C9: \<open>getResults\<close>, with or without a comparator, returns the state it was
  called in: the candidate list, \<open>registeredVoterList\<close> and \<open>candidatedVoted\<close> are
  unchanged. A repeated call returns the same value, and a call within a sequence of
  calls does not change the state that sequence leads to.
\<close>

theorem getResults_frame:
  "snd (getResults sortFn s) = s \<and>
   getResults sortFn' (snd (getResults sortFn s)) = getResults sortFn' s \<and>
   run (as @ GetResults sortFn # as') s0 = run (as @ as') s0"
  by (simp add: getResults_def run_append)

text \<open>A call of \<open>getResults\<close> sorting by the length of the name, between Mohan's registration and his
  vote.\<close>

theorem getResults_frame_witness:
  "snd (getResults (Some (\<lambda>a b. int (length (res_name a)) - int (length (res_name b))))
          (run [RegisterVoter (Some mohan)] (createElection [ram, sita]))) =
     run [RegisterVoter (Some mohan)] (createElection [ram, sita]) \<and>
   run ([RegisterVoter (Some mohan)] @
        GetResults (Some (\<lambda>a b. int (length (res_name a)) - int (length (res_name b)))) #
        [CastVote ''V1'' ''C2'']) (createElection [ram, sita]) =
     run [RegisterVoter (Some mohan), CastVote ''V1'' ''C2''] (createElection [ram, sita])"
  using getResults_frame
          [of "Some (\<lambda>a b. int (length (res_name a)) - int (length (res_name b)))"
              "run [RegisterVoter (Some mohan)] (createElection [ram, sita])"
              None "[RegisterVoter (Some mohan)]" "[CastVote ''V1'' ''C2'']"
              "createElection [ram, sita]"]
  by simp

text \<open>
  Claim C10: \<open>getWinner()\<close> fails with a \<open>TypeError\<close>, returning neither \<open>null\<close> nor a
  record, exactly when the candidate list is empty. For a registry built from the empty
  list \<open>getResults()\<close> returns the empty array and \<open>getWinner()\<close> fails in every
  reachable state.
\<close>

theorem getWinner_error_iff_no_candidates:
  "(fst (getWinner s) = Inl TypeError) = (candidates s = []) \<and>
   fst (getWinner (run as (createElection []))) = Inl TypeError \<and>
   fst (getResults None (run as (createElection []))) = []"
proof -
  have len: "length (fst (getResults None s)) = length (candidates s)" for s
    by (simp add: getResults_default)
  have a: "(fst (getWinner s) = Inl TypeError) = (fst (getResults None s) = [])" for s
    by (simp add: getWinner_def split: prod.splits list.splits)
  have b: "(fst (getResults None s) = []) = (candidates s = [])" for s
    using len [of s] by (metis length_0_conv)
  have "candidates (run as (createElection [])) = []"
    by (simp add: candidates_run createElection_def)
  with a b show ?thesis by simp
qed

text \<open>The registry without candidates, after a registration, and the registry of the
  example.\<close>

theorem getWinner_error_iff_no_candidates_witness:
  "fst (getWinner (run [RegisterVoter (Some mohan)] (createElection []))) = Inl TypeError \<and>
   fst (getWinner (createElection [ram, sita])) \<noteq> Inl TypeError"
  using getWinner_error_iff_no_candidates [of "createElection [ram, sita]" "[RegisterVoter (Some mohan)]"]
  by (simp add: createElection_def)

end
